theory Spec2Isabelle
  imports Main "HOL-Library.Word"
begin

unbundle bit_operations_syntax

section \<open>Bucket generations, marks and device usage (libbcachefs/buckets.h)\<close>

text \<open>
  The header \<^verbatim>\<open>buckets.h\<close> consists of small inline functions over fixed-width
  integers. Each of them is embedded below under its own name. C's \<^verbatim>\<open>u8\<close>,
  \<^verbatim>\<open>u16\<close>, \<^verbatim>\<open>u32\<close> and \<^verbatim>\<open>u64\<close> are words of that width, so that \<open>+\<close>, \<open>-\<close> and
  \<open>*\<close> wrap around as they do in C; C's \<^verbatim>\<open>int\<close> results that provably stay
  within a few bits are kept as \<open>int\<close>. A \<^verbatim>\<open>BUG_ON\<close> that fires is the result
  \<open>None\<close>.
\<close>

type_synonym u8 = "8 word"
type_synonym u16 = "16 word"
type_synonym u32 = "32 word"
type_synonym u64 = "64 word"

subsection \<open>Data\<close>

text \<open>
  Modelled from the spec: \<^verbatim>\<open>struct bucket_mark\<close> and \<^verbatim>\<open>struct bucket\<close> are declared in
  \<^verbatim>\<open>buckets_types.h\<close>, which is not among the sources. The fields are the ones the
  data model lists for a bucket (generation, data type, dirty and cached sector counts,
  stripe flag, and the oldest generation maintained by garbage collection); the header
  reads \<^verbatim>\<open>mark.gen\<close>, \<^verbatim>\<open>mark.dirty_sectors\<close>, \<^verbatim>\<open>mark.stripe\<close> and
  \<^verbatim>\<open>oldest_gen\<close>.
\<close>

datatype bch_data_type =
  BCH_DATA_none | BCH_DATA_btree | BCH_DATA_user | BCH_DATA_cached
  | BCH_DATA_parity | BCH_DATA_journal | BCH_DATA_sb

record bucket_mark =
  gen :: u8
  data_type :: bch_data_type
  dirty_sectors :: u32
  cached_sectors :: u32
  stripe :: bool

record bucket =
  mark :: bucket_mark
  oldest_gen :: u8

text \<open>
  Modelled from the spec: \<^verbatim>\<open>struct bch_extent_ptr\<close> is declared outside the sources. An
  extent pointer carries a device id, an offset, a generation and a cached flag.
\<close>

record bch_extent_ptr =
  ptr_dev :: u8
  ptr_offset :: u64
  ptr_gen :: u8
  ptr_cached :: bool

text \<open>
  Modelled from the spec: \<^verbatim>\<open>struct bucket_gens\<close> is declared outside the sources. It is
  the per-device array \<^verbatim>\<open>b[]\<close> of 8-bit generations, one per bucket, on the indices
  from \<^verbatim>\<open>first_bucket\<close> up to \<^verbatim>\<open>nbuckets\<close> (exclusive), the two bounds the header
  reads. The flexible array is a function from the index.
\<close>

record bucket_gens =
  gens_first_bucket :: u16
  gens_nbuckets :: u64
  gens_b :: "nat \<Rightarrow> u8"

text \<open>
  Modelled from the spec: the type of \<^verbatim>\<open>ca->mi\<close> is declared outside the sources. It
  holds the geometry of the device taken from the superblock, of which the header reads
  the number of buckets and the first usable bucket.
\<close>

record bch_member_cpu =
  nbuckets :: u64
  first_bucket :: u16

text \<open>
  Modelled from the spec: the FIFO type of the freelists and its macro \<^verbatim>\<open>fifo_used\<close>
  are defined outside the sources. A queue is represented by the number of entries it
  holds, which is all the header asks of it.
\<close>

record fifo =
  used :: u64

definition fifo_used :: "fifo \<Rightarrow> u64" where
  "fifo_used q = used q"

text \<open>
  Modelled from the spec: \<^verbatim>\<open>struct bch_dev\<close> is declared outside the sources; the record
  has the members the header reads. The array \<^verbatim>\<open>free[RESERVE_NR]\<close> of freelist tiers is
  a function from the tier index. The queue sizes and the count of open buckets are
  unsigned; whatever their declared widths, C extends them with zeros to 64 bits before
  they are subtracted from the \<^verbatim>\<open>s64\<close> local of \<^verbatim>\<open>__dev_buckets_reclaimable\<close>, so they
  are kept as 64-bit words.
\<close>

record bch_dev =
  mi :: bch_member_cpu
  dev_bucket_gens :: bucket_gens
  free :: "nat \<Rightarrow> fifo"
  free_inc :: fifo
  nr_open_buckets :: u64

subsection \<open>Generation arithmetic\<close>

text \<open>
  \<^verbatim>\<open>static inline u8 bucket_gc_gen(struct bucket *g) { return g->mark.gen - g->oldest_gen; }\<close>
  C promotes both operands to \<^verbatim>\<open>int\<close>, subtracts there, and converts the result to
  \<^verbatim>\<open>u8\<close>.
\<close>

definition bucket_gc_gen :: "bucket \<Rightarrow> u8" where
  "bucket_gc_gen g = word_of_int (uint (gen (mark g)) - uint (oldest_gen g))"

text \<open>
  \<^verbatim>\<open>static inline int gen_cmp(u8 a, u8 b) { return (s8) (a - b); }\<close>
  The difference is taken in \<^verbatim>\<open>int\<close> and then narrowed to a signed 8-bit value.
\<close>

definition gen_cmp :: "u8 \<Rightarrow> u8 \<Rightarrow> int" where
  "gen_cmp a b = sint (word_of_int (uint a - uint b) :: u8)"

text \<open>
  \<^verbatim>\<open>static inline int gen_after(u8 a, u8 b) { int r = gen_cmp(a, b); return r > 0 ? r : 0; }\<close>
\<close>

definition gen_after :: "u8 \<Rightarrow> u8 \<Rightarrow> int" where
  "gen_after a b = (let r = gen_cmp a b in if r > 0 then r else 0)"

text \<open>
  \<^verbatim>\<open>bucket_gen\<close>: the generation of bucket \<open>b\<close>, with
  \<^verbatim>\<open>BUG_ON(b < gens->first_bucket || b >= gens->nbuckets)\<close>.
\<close>

definition bucket_gen :: "bch_dev \<Rightarrow> u64 \<Rightarrow> u8 option" where
  "bucket_gen ca b =
     (let gens = dev_bucket_gens ca in
      if b < ucast (gens_first_bucket gens) \<or> b \<ge> gens_nbuckets gens then None
      else Some (gens_b gens (unat b)))"

text \<open>
  \<^verbatim>\<open>PTR_BUCKET_NR(ca, ptr) = sector_to_bucket(ca, ptr->offset)\<close>. The helper
  \<^verbatim>\<open>sector_to_bucket\<close> lives in \<^verbatim>\<open>super.h\<close>, outside the sources, and is a parameter.
\<close>

definition PTR_BUCKET_NR ::
  "(bch_dev \<Rightarrow> u64 \<Rightarrow> u64) \<Rightarrow> bch_dev \<Rightarrow> bch_extent_ptr \<Rightarrow> u64" where
  "PTR_BUCKET_NR sector_to_bucket ca ptr = sector_to_bucket ca (ptr_offset ptr)"

text \<open>
  \<^verbatim>\<open>ptr_stale\<close>: the \<^verbatim>\<open>int\<close> returned by \<^verbatim>\<open>gen_after\<close> is stored in a \<^verbatim>\<open>u8\<close>. The
  RCU read lock around the lookup has no effect on the value.
\<close>

definition ptr_stale ::
  "(bch_dev \<Rightarrow> u64 \<Rightarrow> u64) \<Rightarrow> bch_dev \<Rightarrow> bch_extent_ptr \<Rightarrow> u8 option" where
  "ptr_stale sector_to_bucket ca ptr =
     (case bucket_gen ca (PTR_BUCKET_NR sector_to_bucket ca ptr) of
        None \<Rightarrow> None
      | Some g \<Rightarrow> Some (word_of_int (gen_after g (ptr_gen ptr))))"

text \<open>
  \<^verbatim>\<open>static inline bool is_available_bucket(struct bucket_mark mark)
  { return !mark.dirty_sectors && !mark.stripe; }\<close>
\<close>

definition is_available_bucket :: "bucket_mark \<Rightarrow> bool" where
  "is_available_bucket m = (dirty_sectors m = 0 \<and> \<not> stripe m)"

subsection \<open>Device usage\<close>

text \<open>
  Modelled from the spec: \<^verbatim>\<open>struct bch_dev_usage\<close> is declared outside the sources; of
  the aggregated counts the header reads \<^verbatim>\<open>buckets_unavailable\<close> only.
\<close>

record bch_dev_usage =
  buckets_unavailable :: u64

text \<open>
  Modelled from the spec: the macro \<^verbatim>\<open>WARN_ONCE\<close> is defined outside the sources. It
  yields the truth value of its condition and logs a warning; as its name says, a call
  site logs once only, so the site's flag and the log are state. The message is kept
  symbolically, with the two numbers it prints.
\<close>

datatype warning = Buckets_unavailable_overflow u64 u64

record warn_state =
  warned :: bool
  logged :: "warning list"

definition WARN_ONCE :: "bool \<Rightarrow> warning \<Rightarrow> warn_state \<Rightarrow> bool \<times> warn_state" where
  "WARN_ONCE cond msg w =
     (if cond \<and> \<not> warned w
      then (True, w\<lparr>warned := True, logged := logged w @ [msg]\<rparr>)
      else (cond, w))"

text \<open>
  \<^verbatim>\<open>__dev_buckets_available\<close> (an Isabelle name cannot start with an underscore, hence
  the prefix \<open>uu\<close>):
  \<^verbatim>\<open>u64 total = ca->mi.nbuckets - ca->mi.first_bucket;
  if (WARN_ONCE(stats.buckets_unavailable > total, ...)) return 0;
  return total - stats.buckets_unavailable;\<close>
\<close>

definition uu_dev_buckets_available ::
  "bch_dev \<Rightarrow> bch_dev_usage \<Rightarrow> warn_state \<Rightarrow> u64 \<times> warn_state" where
  "uu_dev_buckets_available ca stats w =
     (let total = nbuckets (mi ca) - ucast (first_bucket (mi ca));
          (overflow, w') =
             WARN_ONCE (buckets_unavailable stats > total)
               (Buckets_unavailable_overflow (buckets_unavailable stats) total) w
      in if overflow then (0, w') else (total - buckets_unavailable stats, w'))"

text \<open>
  \<^verbatim>\<open>__dev_buckets_reclaimable\<close>. The local \<^verbatim>\<open>s64 available\<close> holds the same 64 bits
  as the \<^verbatim>\<open>u64\<close> it is initialised from, and every \<^verbatim>\<open>-=\<close> is a subtraction modulo
  \<open>2^64\<close>; only the final \<^verbatim>\<open>max(available, 0LL)\<close> reads the bits as a signed number
  (\<open><s\<close> is the signed order on words). The constant \<^verbatim>\<open>RESERVE_NR\<close>, the number of
  freelist tiers, is defined outside the sources and is a parameter. The freelist lock
  taken around the loop does not change the value computed.
\<close>

definition uu_dev_buckets_reclaimable ::
  "nat \<Rightarrow> bch_dev \<Rightarrow> bch_dev_usage \<Rightarrow> warn_state \<Rightarrow> u64 \<times> warn_state" where
  "uu_dev_buckets_reclaimable RESERVE_NR ca stats w =
     (let (available, w') = uu_dev_buckets_available ca stats w;
          available = fold (\<lambda>i available. available - fifo_used (free ca i))
                        [0..<RESERVE_NR] available;
          available = available - fifo_used (free_inc ca);
          available = available - nr_open_buckets ca
      in (if 0 <s available then available else 0, w'))"

subsection \<open>Disk reservations\<close>

text \<open>
  Modelled from the spec: \<^verbatim>\<open>struct disk_reservation\<close> is declared outside the sources;
  a reservation is the pair of a sector count and a replica count.
\<close>

record disk_reservation =
  sectors :: u64
  nr_replicas :: u32

text \<open>
  Modelled from the spec: \<^verbatim>\<open>struct bch_fs\<close> is declared outside the sources; the record
  has the per-CPU online-reserved counter \<^verbatim>\<open>online_reserved\<close>, one \<^verbatim>\<open>u64\<close> per CPU.
  The functions below take the CPU they run on as an argument; the kernel's
  \<^verbatim>\<open>this_cpu_add\<close> and \<^verbatim>\<open>this_cpu_sub\<close> update the slot of that CPU.
\<close>

record bch_fs =
  online_reserved :: "u64 list"

definition this_cpu_add :: "nat \<Rightarrow> u64 list \<Rightarrow> u64 \<Rightarrow> u64 list" where
  "this_cpu_add cpu pcp val = pcp[cpu := pcp ! cpu + val]"

definition this_cpu_sub :: "nat \<Rightarrow> u64 list \<Rightarrow> u64 \<Rightarrow> u64 list" where
  "this_cpu_sub cpu pcp val = pcp[cpu := pcp ! cpu - val]"

text \<open>
  The value of a per-CPU counter is the sum over the CPUs, modulo \<open>2^64\<close>; a single
  slot may wrap below zero when a reservation is released on another CPU than the one
  that acquired it.
\<close>

definition online_reserved_total :: "bch_fs \<Rightarrow> u64" where
  "online_reserved_total c = sum_list (online_reserved c)"

text \<open>
  \<^verbatim>\<open>bch2_disk_reservation_put\<close>:
  \<^verbatim>\<open>this_cpu_sub(*c->online_reserved, res->sectors); res->sectors = 0;\<close>
\<close>

definition bch2_disk_reservation_put ::
  "nat \<Rightarrow> bch_fs \<Rightarrow> disk_reservation \<Rightarrow> bch_fs \<times> disk_reservation" where
  "bch2_disk_reservation_put cpu c res =
     (c\<lparr>online_reserved := this_cpu_sub cpu (online_reserved c) (sectors res)\<rparr>,
      res\<lparr>sectors := 0\<rparr>)"

text \<open>
  \<^verbatim>\<open>#define BCH_DISK_RESERVATION_NOFAIL (1 << 0)\<close>. The flags are a C \<^verbatim>\<open>int\<close>, of
  which only the bits matter: a 32-bit word.
\<close>

definition BCH_DISK_RESERVATION_NOFAIL :: u32 where
  "BCH_DISK_RESERVATION_NOFAIL = push_bit 0 1"

datatype error = InsufficientSpace

text \<open>
  Modelled from the spec: \<^verbatim>\<open>bch2_disk_reservation_add\<close> is only declared in the header;
  its body is not among the sources. According to the specification the request is
  admitted when it fits into the space that may be handed out (the admission test keeps
  a reserved headroom and is the parameter \<open>admit\<close>, since the specification leaves its
  formula open) or when the flags carry the override; an admitted request adds the
  sectors to the per-CPU online-reserved counter and to the token, and a refused one
  fails with \<open>InsufficientSpace\<close> and changes nothing.
\<close>

definition bch2_disk_reservation_add ::
  "(bch_fs \<Rightarrow> u64 \<Rightarrow> bool) \<Rightarrow> nat \<Rightarrow> bch_fs \<Rightarrow> disk_reservation \<Rightarrow> u64 \<Rightarrow> u32
     \<Rightarrow> (error + unit) \<times> bch_fs \<times> disk_reservation" where
  "bch2_disk_reservation_add admit cpu c res need flags =
     (if admit c need \<or> flags AND BCH_DISK_RESERVATION_NOFAIL \<noteq> 0
      then (Inr (),
            c\<lparr>online_reserved := this_cpu_add cpu (online_reserved c) need\<rparr>,
            res\<lparr>sectors := sectors res + need\<rparr>)
      else (Inl InsufficientSpace, c, res))"

text \<open>
  \<^verbatim>\<open>bch2_disk_reservation_init\<close>: a fresh token with no sectors.
\<close>

definition bch2_disk_reservation_init :: "bch_fs \<Rightarrow> u32 \<Rightarrow> disk_reservation" where
  "bch2_disk_reservation_init c nr = \<lparr>sectors = 0, nr_replicas = nr\<rparr>"

text \<open>
  \<^verbatim>\<open>bch2_disk_reservation_get\<close>:
  \<^verbatim>\<open>*res = bch2_disk_reservation_init(c, nr_replicas);
  return bch2_disk_reservation_add(c, res, sectors * nr_replicas, flags);\<close>
  The token passed in is overwritten; the product is taken in \<^verbatim>\<open>u64\<close>.
\<close>

definition bch2_disk_reservation_get ::
  "(bch_fs \<Rightarrow> u64 \<Rightarrow> bool) \<Rightarrow> nat \<Rightarrow> bch_fs \<Rightarrow> disk_reservation \<Rightarrow> u64 \<Rightarrow> u32 \<Rightarrow> u32
     \<Rightarrow> (error + unit) \<times> bch_fs \<times> disk_reservation" where
  "bch2_disk_reservation_get admit cpu c res sects nr flags =
     (let res = bch2_disk_reservation_init c nr
      in bch2_disk_reservation_add admit cpu c res (sects * ucast nr) flags)"

text \<open>
  \<^verbatim>\<open>#define RESERVE_FACTOR 6\<close> and
  \<^verbatim>\<open>avail_factor(r) = div_u64(r << RESERVE_FACTOR, (1 << RESERVE_FACTOR) + 1)\<close>.
  The shift is a shift of a \<^verbatim>\<open>u64\<close> and drops the bits pushed beyond bit 63;
  \<^verbatim>\<open>div_u64\<close> is the unsigned 64-bit quotient.
\<close>

definition RESERVE_FACTOR :: nat where
  "RESERVE_FACTOR = 6"

definition div_u64 :: "u64 \<Rightarrow> u32 \<Rightarrow> u64" where
  "div_u64 dividend divisor = dividend div ucast divisor"

definition avail_factor :: "u64 \<Rightarrow> u64" where
  "avail_factor r = div_u64 (push_bit RESERVE_FACTOR r) (push_bit RESERVE_FACTOR 1 + 1)"

text \<open>
  Modelled from the spec: the admission test is part of the body of
  \<^verbatim>\<open>bch2_disk_reservation_add\<close>, which is not among the sources. According to the
  specification a reserved headroom of about 1/65th of the total capacity is never handed
  out except under the override flag. The part of a capacity that may be handed out is
  what \<^verbatim>\<open>avail_factor\<close> computes, so a request is admitted when the sectors reserved so
  far and the sectors asked for together stay within \<^verbatim>\<open>avail_factor\<close> of the capacity
  (the sum is taken over the numbers, not modulo \<open>2^64\<close>).
\<close>

definition admit_headroom :: "u64 \<Rightarrow> bch_fs \<Rightarrow> u64 \<Rightarrow> bool" where
  "admit_headroom capacity c need =
     (unat (online_reserved_total c) + unat need \<le> unat (avail_factor capacity))"

subsection \<open>The compare-and-swap loop on a bucket mark\<close>

text \<open>
  \<^verbatim>\<open>bucket_cmpxchg(g, new, expr)\<close> reads the 64-bit mark word of the bucket
  atomically, and then repeats: copy the value read into \<^verbatim>\<open>_old\<close> and \<^verbatim>\<open>new\<close>, run
  \<^verbatim>\<open>expr\<close> (which edits \<^verbatim>\<open>new\<close>), and \<^verbatim>\<open>atomic64_cmpxchg\<close> the word from
  \<^verbatim>\<open>_old\<close> to \<^verbatim>\<open>new\<close>; the loop ends when the exchange returns \<^verbatim>\<open>_old\<close>, otherwise
  the value it returned is the next \<^verbatim>\<open>_v\<close>. The macro yields \<^verbatim>\<open>_old\<close>.

  The two atomic operations are the only accesses to shared memory, so a caller is in
  one of three states: it has not read the word yet, it holds a value \<^verbatim>\<open>_v\<close> and is
  about to run the body and the exchange, or it has left the loop with \<^verbatim>\<open>_old\<close>. The
  body is a function from the word read to the word to be written.
\<close>

datatype cmpxchg_caller = Idle | Loaded u64 | Done u64

fun is_Done :: "cmpxchg_caller \<Rightarrow> bool" where
  "is_Done (Done _) = True"
| "is_Done _ = False"

text \<open>One atomic step of a caller on the shared word \<open>v\<close>.\<close>

fun bucket_cmpxchg_step :: "(u64 \<Rightarrow> u64) \<Rightarrow> u64 \<Rightarrow> cmpxchg_caller \<Rightarrow> u64 \<times> cmpxchg_caller" where
  "bucket_cmpxchg_step expr v Idle = (v, Loaded v)"
| "bucket_cmpxchg_step expr v (Loaded old) =
     (if v = old then (expr old, Done old) else (v, Loaded v))"
| "bucket_cmpxchg_step expr v (Done old) = (v, Done old)"

text \<open>
  Concurrent callers on one bucket: caller \<open>i\<close> runs the body \<open>exprs ! i\<close>, and a
  schedule names the caller that takes the next atomic step.
\<close>

fun bucket_cmpxchg_run ::
  "(u64 \<Rightarrow> u64) list \<Rightarrow> nat list \<Rightarrow> u64 \<times> cmpxchg_caller list \<Rightarrow> u64 \<times> cmpxchg_caller list" where
  "bucket_cmpxchg_run exprs [] s = s"
| "bucket_cmpxchg_run exprs (i # sched) (v, cs) =
     (if i < length cs
      then (let (v', c') = bucket_cmpxchg_step (exprs ! i) v (cs ! i)
            in bucket_cmpxchg_run exprs sched (v', cs[i := c']))
      else bucket_cmpxchg_run exprs sched (v, cs))"

text \<open>
  The word left by applying the bodies of the callers named in \<open>order\<close>, one after the
  other, to the initial word: a serial execution.
\<close>

definition serialize :: "(u64 \<Rightarrow> u64) list \<Rightarrow> nat list \<Rightarrow> u64 \<Rightarrow> u64" where
  "serialize exprs order v0 = fold (\<lambda>i v. (exprs ! i) v) order v0"

text \<open>
  The invariant of a concurrent run: the shared word is the serial execution of the
  callers that have left the loop, in the order \<open>hist\<close> in which their exchanges
  succeeded.
\<close>

definition cmpxchg_inv ::
  "(u64 \<Rightarrow> u64) list \<Rightarrow> u64 \<Rightarrow> nat list \<Rightarrow> u64 \<times> cmpxchg_caller list \<Rightarrow> bool" where
  "cmpxchg_inv exprs v0 hist s =
     (distinct hist
      \<and> set hist = {i. i < length (snd s) \<and> is_Done (snd s ! i)}
      \<and> fst s = serialize exprs hist v0)"

subsection \<open>Concrete configurations\<close>

text \<open>
  A device of 100 buckets of 8 sectors each, whose bucket 5 has generation \<open>g\<close>; two
  freelist tiers holding 8 and 4 buckets, 3 buckets in the incoming queue and 5 open
  buckets. The pointer points into bucket 5 and was recorded at generation 3.
\<close>

definition sector_to_bucket8 :: "bch_dev \<Rightarrow> u64 \<Rightarrow> u64" where
  "sector_to_bucket8 ca s = s div 8"

definition dev100 :: "u8 \<Rightarrow> bch_dev" where
  "dev100 g =
     \<lparr>mi = \<lparr>nbuckets = 100, first_bucket = 0\<rparr>,
      dev_bucket_gens =
        \<lparr>gens_first_bucket = 0, gens_nbuckets = 100, gens_b = (\<lambda>i. if i = 5 then g else 0)\<rparr>,
      free = (\<lambda>i. if i = 0 then \<lparr>used = 8\<rparr> else \<lparr>used = 4\<rparr>),
      free_inc = \<lparr>used = 3\<rparr>,
      nr_open_buckets = 5\<rparr>"

definition ptr_into_5 :: bch_extent_ptr where
  "ptr_into_5 = \<lparr>ptr_dev = 0, ptr_offset = 40, ptr_gen = 3, ptr_cached = False\<rparr>"

definition no_warning :: warn_state where
  "no_warning = \<lparr>warned = False, logged = []\<rparr>"

text \<open>The state of the warning site after one overflow of 101 unavailable buckets.\<close>

definition warned_once :: warn_state where
  "warned_once = \<lparr>warned = True, logged = [Buckets_unavailable_overflow 101 100]\<rparr>"

text \<open>A device whose superblock announces \<open>2^63\<close> buckets, with empty queues.\<close>

definition dev_huge :: bch_dev where
  "dev_huge =
     \<lparr>mi = \<lparr>nbuckets = 2 ^ 63, first_bucket = 0\<rparr>,
      dev_bucket_gens = \<lparr>gens_first_bucket = 0, gens_nbuckets = 2 ^ 63, gens_b = (\<lambda>i. 0)\<rparr>,
      free = (\<lambda>i. \<lparr>used = 0\<rparr>),
      free_inc = \<lparr>used = 0\<rparr>,
      nr_open_buckets = 0\<rparr>"

text \<open>
  A filesystem with two CPUs, and an admission test that grants up to 1000 sectors.
\<close>

definition fs2 :: bch_fs where
  "fs2 = \<lparr>online_reserved = [5, 7]\<rparr>"

definition admit1000 :: "bch_fs \<Rightarrow> u64 \<Rightarrow> bool" where
  "admit1000 c need = (need \<le> 1000)"

text \<open>Two callers on one bucket: the first adds 1 to the mark word, the second 2.\<close>

definition two_exprs :: "(u64 \<Rightarrow> u64) list" where
  "two_exprs = [\<lambda>v. v + 1, \<lambda>v. v + 2]"

section \<open>Properties\<close>

subsection \<open>Signed and unsigned readings of a word\<close>

lemma sint_low:
  fixes w :: "'a::len word"
  assumes "uint w < 2 ^ (LENGTH('a) - 1)"
  shows "sint w = uint w"
proof -
  have "- (2 ^ (LENGTH('a) - 1)) \<le> uint w"
    by (rule order_trans [of _ 0]) simp_all
  with assms show ?thesis
    by (simp add: sint_uint signed_take_bit_int_eq_self)
qed

lemma sint_high:
  fixes w :: "'a::len word"
  assumes "2 ^ (LENGTH('a) - 1) \<le> uint w"
  shows "sint w = uint w - 2 ^ LENGTH('a)"
proof -
  obtain n where n: "LENGTH('a) = Suc n"
    by (cases "LENGTH('a)") simp_all
  have lt: "uint w < 2 ^ Suc n"
    using uint_lt2p [of w] by (simp add: n)
  have "take_bit (Suc n) (uint w - 2 ^ Suc n) = take_bit (Suc n) (uint w)"
    by (simp add: take_bit_eq_mod)
  then have "signed_take_bit n (uint w) = signed_take_bit n (uint w - 2 ^ Suc n)"
    by (simp add: signed_take_bit_eq_iff_take_bit_eq)
  also have "\<dots> = uint w - 2 ^ Suc n"
    using assms lt by (intro signed_take_bit_int_eq_self) (simp_all add: n)
  finally show ?thesis
    by (simp add: sint_uint n)
qed

lemma sint_u8_cases: "sint (w :: u8) = (if uint w < 128 then uint w else uint w - 256)"
  using sint_low [of w] sint_high [of w] by simp

lemma sint_u64_cases:
  "sint (w :: u64) = (if uint w < 2 ^ 63 then uint w else uint w - 2 ^ 64)"
  using sint_low [of w] sint_high [of w] by simp

lemma gen_cmp_sint: "gen_cmp a b = sint (a - b)"
  by (simp add: gen_cmp_def)

lemma gen_after_sint:
  "gen_after a b = (if 0 < sint (a - b) then sint (a - b) else 0)"
  by (simp add: gen_after_def Let_def gen_cmp_sint)

lemma gen_after_pos_iff: "0 < gen_after a b \<longleftrightarrow> 0 < sint (a - b)"
  by (simp add: gen_after_sint)

lemma gen_after_range: "0 \<le> gen_after a b \<and> gen_after a b \<le> 127"
  using sint_lt [of "a - b"] by (simp add: gen_after_sint)

lemma u8_of_gen_after: "uint (word_of_int (gen_after a b) :: u8) = gen_after a b"
  using gen_after_range [of a b] by (simp add: uint_word_of_int take_bit_int_eq_self)

lemma u8_of_gen_after_zero: "(word_of_int (gen_after a b) :: u8) = 0 \<longleftrightarrow> gen_after a b = 0"
  by (simp add: word_uint_eq_iff u8_of_gen_after)

lemma sint_u8_pos_iff: "0 < sint (w :: u8) \<longleftrightarrow> 0 < unat w \<and> unat w \<le> 127"
proof -
  have "uint w = int (unat w)"
    by simp
  moreover have "0 < sint w \<longleftrightarrow> 0 < uint w \<and> uint w \<le> 127"
    using uint_lt2p [of w] by (auto simp: sint_u8_cases)
  ultimately show ?thesis
    by (simp only: of_nat_0_less_iff) linarith
qed

subsection \<open>Generations and staleness\<close>

lemma gen_after_same: "gen_after a a = 0"
  by (simp add: gen_after_sint)

lemma gen_after_succ: "gen_after (a + 1) a = 1"
  by (simp add: gen_after_sint)

lemma gen_after_nonzero_iff: "gen_after a b \<noteq> 0 \<longleftrightarrow> 0 < sint (a - b)"
  by (simp add: gen_after_sint)

text \<open>
  Claim C1. Whenever the bucket a pointer points into lies within the generation array,
  \<^verbatim>\<open>ptr_stale\<close> returns a value that is non-zero (stale) exactly when the 8-bit
  wrapping difference of the bucket's current generation and the pointer's generation,
  read as a signed number, is strictly positive, and zero (not stale) otherwise; the
  value is that difference when it is positive. In particular a pointer whose generation
  equals the bucket's is not stale, and it is stale once the bucket's generation is one
  ahead.
\<close>

theorem ptr_stale_signed_diff:
  assumes "bucket_gen ca (PTR_BUCKET_NR s2b ca ptr) = Some cur"
  shows "\<exists>r. ptr_stale s2b ca ptr = Some r
           \<and> (r \<noteq> 0) = (0 < sint (cur - ptr_gen ptr))
           \<and> uint r = (if 0 < sint (cur - ptr_gen ptr) then sint (cur - ptr_gen ptr) else 0)
           \<and> (cur = ptr_gen ptr \<longrightarrow> r = 0)
           \<and> (cur = ptr_gen ptr + 1 \<longrightarrow> r = 1)"
proof (intro exI conjI impI)
  show "ptr_stale s2b ca ptr = Some (word_of_int (gen_after cur (ptr_gen ptr)))"
    using assms by (simp add: ptr_stale_def)
  show "((word_of_int (gen_after cur (ptr_gen ptr)) :: u8) \<noteq> 0) = (0 < sint (cur - ptr_gen ptr))"
    by (simp only: u8_of_gen_after_zero gen_after_nonzero_iff)
  show "uint (word_of_int (gen_after cur (ptr_gen ptr)) :: u8)
          = (if 0 < sint (cur - ptr_gen ptr) then sint (cur - ptr_gen ptr) else 0)"
    by (simp only: u8_of_gen_after) (rule gen_after_sint)
  show "(word_of_int (gen_after cur (ptr_gen ptr)) :: u8) = 0" if "cur = ptr_gen ptr"
    by (simp only: that gen_after_same) simp
  show "(word_of_int (gen_after cur (ptr_gen ptr)) :: u8) = 1" if "cur = ptr_gen ptr + 1"
    by (simp only: that gen_after_succ) simp
qed

text \<open>
  Bucket 5 at generation 3 and a pointer recorded at generation 3: not stale. The same
  pointer after the bucket has moved to generation 4: stale.
\<close>

theorem ptr_stale_signed_diff_witness:
  "bucket_gen (dev100 3) (PTR_BUCKET_NR sector_to_bucket8 (dev100 3) ptr_into_5) = Some 3
   \<and> ptr_stale sector_to_bucket8 (dev100 3) ptr_into_5 = Some 0
   \<and> bucket_gen (dev100 4) (PTR_BUCKET_NR sector_to_bucket8 (dev100 4) ptr_into_5) = Some 4
   \<and> ptr_stale sector_to_bucket8 (dev100 4) ptr_into_5 = Some 1"
proof -
  have nr: "PTR_BUCKET_NR sector_to_bucket8 (dev100 g) ptr_into_5 = 5" for g
    by (simp add: PTR_BUCKET_NR_def sector_to_bucket8_def ptr_into_5_def)
  have cur: "bucket_gen (dev100 g) (PTR_BUCKET_NR sector_to_bucket8 (dev100 g) ptr_into_5) = Some g" for g
    unfolding bucket_gen_def nr by (simp add: dev100_def)
  have p: "ptr_gen ptr_into_5 = 3"
    by (simp add: ptr_into_5_def)
  from ptr_stale_signed_diff [OF cur [of 3]] p
  have "ptr_stale sector_to_bucket8 (dev100 3) ptr_into_5 = Some 0"
    by auto
  moreover from ptr_stale_signed_diff [OF cur [of 4]] p
  have "ptr_stale sector_to_bucket8 (dev100 4) ptr_into_5 = Some 1"
    by auto
  ultimately show ?thesis
    using cur [of 3] cur [of 4] by simp
qed

text \<open>
  \<open>k\<close> further advances of a generation add \<open>k\<close> modulo 256. The wrapping distance
  from the pointer's generation stays within 127 over all of them exactly when the
  distance so far plus \<open>k\<close> is at most 127.
\<close>

lemma unat_add_of_nat_u8: "unat (w + of_nat j :: u8) = (unat w + j) mod 256"
proof -
  have "unat (w + of_nat j) = (unat w + j mod 256) mod 256"
    by (simp add: unat_word_ariths unat_of_nat)
  then show ?thesis
    by (simp add: mod_add_right_eq)
qed

lemma window_stays_iff:
  fixes cur p :: u8
  assumes "unat (cur - p) \<le> 127"
  shows "(\<forall>j\<le>k. unat (cur + of_nat j - p) \<le> 127) \<longleftrightarrow> unat (cur - p) + k \<le> 127"
proof
  have e: "cur + of_nat j - p = (cur - p) + of_nat j" for j
    by simp
  assume all: "\<forall>j\<le>k. unat (cur + of_nat j - p) \<le> 127"
  show "unat (cur - p) + k \<le> 127"
  proof (rule ccontr)
    assume "\<not> unat (cur - p) + k \<le> 127"
    with assms have j: "128 - unat (cur - p) \<le> k"
      by linarith
    have "unat (cur + of_nat (128 - unat (cur - p)) - p)
            = (unat (cur - p) + (128 - unat (cur - p))) mod 256"
      by (simp only: e unat_add_of_nat_u8)
    also have "\<dots> = 128"
      using assms by simp
    finally show False
      using all j by force
  qed
next
  have e: "cur + of_nat j - p = (cur - p) + of_nat j" for j
    by simp
  assume le: "unat (cur - p) + k \<le> 127"
  show "\<forall>j\<le>k. unat (cur + of_nat j - p) \<le> 127"
  proof (intro allI impI)
    fix j assume "j \<le> k"
    with le have "unat (cur - p) + j \<le> 127"
      by linarith
    then have "(unat (cur - p) + j) mod 256 \<le> 127"
      by simp
    then show "unat (cur + of_nat j - p) \<le> 127"
      by (simp only: e unat_add_of_nat_u8)
  qed
qed

lemma gen_after_advance:
  assumes "0 < gen_after cur p" and "unat (cur - p) + k \<le> 127"
  shows "0 < gen_after (cur + of_nat k) p"
proof -
  let ?d = "cur - p"
  from assms(1) have d: "0 < unat ?d"
    by (simp add: gen_after_pos_iff sint_u8_pos_iff)
  have "unat (?d + of_nat k) = (unat ?d + k mod 256) mod 256"
    by (simp add: unat_word_ariths unat_of_nat)
  also have "\<dots> = unat ?d + k"
    using assms(2) by simp
  finally have u: "unat (?d + of_nat k) = unat ?d + k" .
  have e: "cur + of_nat k - p = ?d + of_nat k"
    by simp
  have "0 < unat (?d + of_nat k) \<and> unat (?d + of_nat k) \<le> 127"
    using u d assms(2) by linarith
  then have "0 < sint (?d + of_nat k)"
    by (simp only: sint_u8_pos_iff)
  then show ?thesis
    by (simp only: gen_after_pos_iff e)
qed

text \<open>
  Claim C5. Staleness is monotone in generation advances: if a pointer of generation
  \<open>p\<close> is stale at the current generation \<open>cur\<close>, then it is stale at the generation
  reached by \<open>k\<close> further advances (each adds one modulo 256), provided the wrapping
  distance from \<open>p\<close> stays within the window of 127 generations over these advances.
\<close>

theorem gen_after_monotone:
  assumes "0 < gen_after cur p" and "\<forall>j\<le>k. unat (cur + of_nat j - p) \<le> 127"
  shows "0 < gen_after (cur + of_nat k) p"
proof -
  from assms(1) have "unat (cur - p) \<le> 127"
    by (simp add: gen_after_pos_iff sint_u8_pos_iff)
  with assms(2) have "unat (cur - p) + k \<le> 127"
    by (simp only: window_stays_iff)
  with assms(1) show ?thesis
    by (rule gen_after_advance)
qed

text \<open>
  A pointer of generation 250 is stale at generation 2 (eight advances later, across the
  wrap from 255 to 0), and still stale 100 advances after that.
\<close>

theorem gen_after_monotone_witness:
  "0 < gen_after 2 250 \<and> unat (2 - 250 :: u8) + 100 \<le> 127
   \<and> 0 < gen_after (2 + of_nat 100) 250"
proof -
  have h1: "0 < gen_after 2 250"
    by (simp add: gen_after_sint)
  have h2: "unat (2 - 250 :: u8) + 100 \<le> 127"
    by simp
  have "unat (2 - 250 :: u8) \<le> 127"
    by simp
  from window_stays_iff [OF this, of 100] h2
  have h3: "\<forall>j\<le>100. unat (2 + of_nat j - 250 :: u8) \<le> 127"
    by (simp only:)
  from gen_after_monotone [OF h1 h3] h1 h2 show ?thesis
    by simp
qed

text \<open>
  Claim C8. \<^verbatim>\<open>bucket_gc_gen\<close> is the difference of the mark's generation and the oldest
  generation modulo 256, the same 8-bit wrapping difference whose signed reading the
  staleness check \<^verbatim>\<open>gen_cmp\<close> takes.
\<close>

theorem bucket_gc_gen_wrapping:
  "bucket_gc_gen g = gen (mark g) - oldest_gen g
   \<and> uint (bucket_gc_gen g) = (uint (gen (mark g)) - uint (oldest_gen g)) mod 256
   \<and> gen_cmp (gen (mark g)) (oldest_gen g) = sint (bucket_gc_gen g)"
  by (simp add: bucket_gc_gen_def gen_cmp_def uint_word_ariths)

text \<open>
  Claim C7. A bucket mark is available exactly when it has no dirty sectors and is not
  part of a stripe; the count of cached sectors does not enter.
\<close>

theorem is_available_bucket_iff:
  "is_available_bucket m = (dirty_sectors m = 0 \<and> \<not> stripe m)
   \<and> is_available_bucket (m\<lparr>cached_sectors := n\<rparr>) = is_available_bucket m"
  by (simp add: is_available_bucket_def)

subsection \<open>Available and reclaimable buckets\<close>

lemma uint_sub_le:
  fixes a b :: "'a::len word"
  assumes "b \<le> a"
  shows "uint (a - b) = uint a - uint b"
  using assms by (simp add: uint_minus_simple_alt)

text \<open>
  Claim C4, as amended. Let \<open>total\<close> be \<^verbatim>\<open>nbuckets - first_bucket\<close> as the function
  computes it, in \<^verbatim>\<open>u64\<close>; it is the difference of the two numbers whenever the first
  usable bucket does not lie beyond the number of buckets.
  When \<^verbatim>\<open>buckets_unavailable\<close> is at most \<open>total\<close>, \<^verbatim>\<open>__dev_buckets_available\<close>
  returns \<open>total - buckets_unavailable\<close>, which is the difference of the two numbers
  (nothing wraps), and logs nothing. When \<^verbatim>\<open>buckets_unavailable\<close> exceeds \<open>total\<close> it
  returns 0, and the call site counts as having warned afterwards: the first overflow at
  the call site appends the message with the two numbers to the log, and every later
  overflow returns 0 and leaves the log as it is (\<^verbatim>\<open>WARN_ONCE\<close> logs once per call
  site).
\<close>

theorem dev_buckets_available_clamped:
  "let total = nbuckets (mi ca) - ucast (first_bucket (mi ca));
       (ret, w') = uu_dev_buckets_available ca stats w
   in (buckets_unavailable stats \<le> total \<longrightarrow>
         ret = total - buckets_unavailable stats
         \<and> uint ret = uint total - uint (buckets_unavailable stats)
         \<and> w' = w)
    \<and> (total < buckets_unavailable stats \<longrightarrow>
         ret = 0 \<and> warned w'
         \<and> (\<not> warned w \<longrightarrow>
              logged w' = logged w @ [Buckets_unavailable_overflow (buckets_unavailable stats) total])
         \<and> (warned w \<longrightarrow> w' = w))
    \<and> (ucast (first_bucket (mi ca)) \<le> nbuckets (mi ca) \<longrightarrow>
         uint total = uint (nbuckets (mi ca)) - uint (first_bucket (mi ca)))"
  by (auto simp: Let_def uu_dev_buckets_available_def WARN_ONCE_def uint_sub_le uint_up_ucast
      is_up split: prod.splits if_splits)

text \<open>
  The device of 100 buckets: with 10 buckets unavailable, 90 are available and nothing
  is logged; with 101 unavailable the result is 0 and the overflow is logged; a later
  overflow of 102 returns 0 and logs nothing more.
\<close>

theorem dev_buckets_available_clamped_witness:
  "uu_dev_buckets_available (dev100 0) \<lparr>buckets_unavailable = 10\<rparr> no_warning = (90, no_warning)
   \<and> uu_dev_buckets_available (dev100 0) \<lparr>buckets_unavailable = 101\<rparr> no_warning
       = (0, warned_once)
   \<and> uu_dev_buckets_available (dev100 0) \<lparr>buckets_unavailable = 102\<rparr> warned_once
       = (0, warned_once)"
proof -
  have total: "nbuckets (mi (dev100 0)) - ucast (first_bucket (mi (dev100 0))) = 100"
    by (simp add: dev100_def)
  have "uu_dev_buckets_available (dev100 0) \<lparr>buckets_unavailable = 10\<rparr> no_warning
          = (90, no_warning)"
    using dev_buckets_available_clamped [of "dev100 0" "\<lparr>buckets_unavailable = 10\<rparr>" no_warning]
    unfolding Let_def total by (auto split: prod.splits)
  moreover
  have "uu_dev_buckets_available (dev100 0) \<lparr>buckets_unavailable = 101\<rparr> no_warning
          = (0, warned_once)"
    using dev_buckets_available_clamped [of "dev100 0" "\<lparr>buckets_unavailable = 101\<rparr>" no_warning]
    unfolding Let_def total by (auto simp: no_warning_def warned_once_def split: prod.splits)
  moreover
  have "uu_dev_buckets_available (dev100 0) \<lparr>buckets_unavailable = 102\<rparr> warned_once
          = (0, warned_once)"
    using dev_buckets_available_clamped [of "dev100 0" "\<lparr>buckets_unavailable = 102\<rparr>" warned_once]
    unfolding Let_def total by (auto simp: warned_once_def split: prod.splits)
  ultimately show ?thesis
    by simp
qed

text \<open>
  An overflow is not always accompanied by a logged warning: at a call site that has
  warned before, 102 unavailable buckets out of 100 give 0 and the log still holds the
  earlier message only.
\<close>

theorem dev_buckets_available_counterexample:
  "nbuckets (mi (dev100 0)) - ucast (first_bucket (mi (dev100 0))) < (102 :: u64)
   \<and> uu_dev_buckets_available (dev100 0) \<lparr>buckets_unavailable = 102\<rparr> warned_once
       = (0, warned_once)
   \<and> logged warned_once = [Buckets_unavailable_overflow 101 100]
   \<and> Buckets_unavailable_overflow 102 100 \<notin> set (logged warned_once)"
  by (simp add: uu_dev_buckets_available_def WARN_ONCE_def dev100_def warned_once_def)

lemma fold_sub_tiers:
  fixes a :: u64
  shows "fold (\<lambda>i available. available - f i) [0..<n] a = a - (\<Sum>i<n. f i)"
  by (induction n) simp_all

lemma word_of_int_sum_uint:
  fixes f :: "nat \<Rightarrow> u64"
  shows "word_of_int (\<Sum>i<n. uint (f i)) = (\<Sum>i<n. f i)"
  by (induction n) simp_all

lemma uint_of_nonneg_sint:
  fixes w :: u64
  assumes "0 \<le> sint w"
  shows "uint w = sint w"
  using assms uint_lt2p [of w] by (simp add: sint_u64_cases split: if_splits)

lemma sint_word_of_int_u64:
  assumes "- (2 ^ 63) \<le> k" and "k < 2 ^ 63"
  shows "sint (word_of_int k :: u64) = k"
  using assms by (simp add: sint_sbintrunc' signed_take_bit_int_eq_self)

lemma clamp_s64:
  fixes w :: u64
  shows "0 \<le> sint (if 0 <s w then w else 0)"
    and "uint (if 0 <s w then w else 0) = max 0 (sint w)"
  by (auto simp: word_sless_alt uint_of_nonneg_sint)

lemma sum_lessThan_2: "(\<Sum>i<2. f i) = f 0 + f (1::nat)" for f :: "nat \<Rightarrow> 'a::comm_monoid_add"
  by (simp add: numeral_2_eq_2)

text \<open>
  Claim C3, as amended. Let \<open>avail\<close> be the value of \<^verbatim>\<open>__dev_buckets_available\<close> and
  \<open>deduct\<close> the sum of the sizes of the \<^verbatim>\<open>RESERVE_NR\<close> freelist tiers, of the incoming
  queue and of the open-bucket count, all as numbers. Whenever \<open>avail - deduct\<close> lies in
  the range of a signed 64-bit integer, \<^verbatim>\<open>__dev_buckets_reclaimable\<close> returns
  \<open>avail - deduct\<close> clamped below at zero; and for every input the result, read as a
  signed 64-bit integer, is not negative.
\<close>

theorem dev_buckets_reclaimable_clamped:
  "let avail = fst (uu_dev_buckets_available ca stats w);
       deduct = (\<Sum>i<RESERVE_NR. uint (fifo_used (free ca i)))
                  + uint (fifo_used (free_inc ca)) + uint (nr_open_buckets ca);
       ret = fst (uu_dev_buckets_reclaimable RESERVE_NR ca stats w)
   in (- (2 ^ 63) \<le> uint avail - deduct \<and> uint avail - deduct < 2 ^ 63 \<longrightarrow>
         uint ret = max 0 (uint avail - deduct))
      \<and> 0 \<le> sint ret"
proof -
  define avail where "avail = fst (uu_dev_buckets_available ca stats w)"
  define deduct where "deduct = (\<Sum>i<RESERVE_NR. uint (fifo_used (free ca i)))
                  + uint (fifo_used (free_inc ca)) + uint (nr_open_buckets ca)"
  define left where "left = avail - (\<Sum>i<RESERVE_NR. fifo_used (free ca i))
                  - fifo_used (free_inc ca) - nr_open_buckets ca"
  have ret: "fst (uu_dev_buckets_reclaimable RESERVE_NR ca stats w) = (if 0 <s left then left else 0)"
    by (simp add: uu_dev_buckets_reclaimable_def Let_def fold_sub_tiers left_def avail_def
        split: prod.splits)
  have "word_of_int (uint avail - deduct) = left"
    by (simp add: deduct_def left_def word_of_int_sum_uint)
  then have "sint left = uint avail - deduct"
    if "- (2 ^ 63) \<le> uint avail - deduct" "uint avail - deduct < 2 ^ 63"
    using sint_word_of_int_u64 [OF that] by simp
  then show ?thesis
    unfolding Let_def avail_def [symmetric] deduct_def [symmetric] ret
    by (simp only: clamp_s64) simp
qed

text \<open>
  The device of 100 buckets with two freelist tiers: 90 available buckets leave
  \<open>90 - (8 + 4) - 3 - 5 = 70\<close> reclaimable ones; 5 available buckets leave none.
\<close>

theorem dev_buckets_reclaimable_clamped_witness:
  "fst (uu_dev_buckets_reclaimable 2 (dev100 0) \<lparr>buckets_unavailable = 10\<rparr> no_warning) = 70
   \<and> fst (uu_dev_buckets_reclaimable 2 (dev100 0) \<lparr>buckets_unavailable = 95\<rparr> no_warning) = 0"
proof -
  have deduct: "(\<Sum>i<2. uint (fifo_used (free (dev100 0) i)))
          + uint (fifo_used (free_inc (dev100 0))) + uint (nr_open_buckets (dev100 0)) = 20"
    by (simp add: sum_lessThan_2 dev100_def fifo_used_def)
  have a10: "fst (uu_dev_buckets_available (dev100 0) \<lparr>buckets_unavailable = 10\<rparr> no_warning) = 90"
    by (simp add: uu_dev_buckets_available_def WARN_ONCE_def dev100_def)
  have a95: "fst (uu_dev_buckets_available (dev100 0) \<lparr>buckets_unavailable = 95\<rparr> no_warning) = 5"
    by (simp add: uu_dev_buckets_available_def WARN_ONCE_def dev100_def)
  have "uint (fst (uu_dev_buckets_reclaimable 2 (dev100 0) \<lparr>buckets_unavailable = 10\<rparr> no_warning)) = 70"
    using dev_buckets_reclaimable_clamped [of "dev100 0" "\<lparr>buckets_unavailable = 10\<rparr>" no_warning 2]
    unfolding Let_def deduct a10 by simp
  moreover
  have "uint (fst (uu_dev_buckets_reclaimable 2 (dev100 0) \<lparr>buckets_unavailable = 95\<rparr> no_warning)) = 0"
    using dev_buckets_reclaimable_clamped [of "dev100 0" "\<lparr>buckets_unavailable = 95\<rparr>" no_warning 2]
    unfolding Let_def deduct a95 by simp
  ultimately show ?thesis
    by (simp add: word_uint_eq_iff)
qed

text \<open>
  Without the restriction the equation fails: on the device of \<open>2^63\<close> buckets with
  nothing unavailable and empty queues, \<open>2^63\<close> buckets are available and nothing is
  deducted, yet the signed local variable holds \<open>- 2^63\<close> and the function returns 0.
\<close>

theorem dev_buckets_reclaimable_counterexample:
  "uint (fst (uu_dev_buckets_reclaimable 2 dev_huge \<lparr>buckets_unavailable = 0\<rparr> no_warning))
     \<noteq> max 0 (uint (fst (uu_dev_buckets_available dev_huge \<lparr>buckets_unavailable = 0\<rparr> no_warning))
                - ((\<Sum>i<2. uint (fifo_used (free dev_huge i)))
                   + uint (fifo_used (free_inc dev_huge)) + uint (nr_open_buckets dev_huge)))"
proof -
  have a: "uu_dev_buckets_available dev_huge \<lparr>buckets_unavailable = 0\<rparr> no_warning
             = (2 ^ 63, no_warning)"
    by (simp add: uu_dev_buckets_available_def WARN_ONCE_def dev_huge_def)
  have r: "fst (uu_dev_buckets_reclaimable 2 dev_huge \<lparr>buckets_unavailable = 0\<rparr> no_warning) = 0"
    unfolding uu_dev_buckets_reclaimable_def a fold_sub_tiers
    by (simp add: sum_lessThan_2 fifo_used_def dev_huge_def word_sless_alt)
  show ?thesis
    unfolding a r by (simp add: sum_lessThan_2 dev_huge_def fifo_used_def)
qed

subsection \<open>The usable fraction of the capacity\<close>

lemma avail_factor_unat:
  "unat (avail_factor r) = (64 * unat r mod 2 ^ 64) div 65"
proof -
  have "unat (push_bit 6 r) = 64 * unat r mod 2 ^ 64"
    by (simp add: push_bit_eq_mult unat_word_ariths mult.commute)
  moreover have "avail_factor r = push_bit 6 r div 65"
    by (simp add: avail_factor_def div_u64_def RESERVE_FACTOR_def)
  ultimately show ?thesis
    by (simp add: unat_div)
qed

lemma avail_factor_small:
  assumes "unat r < 2 ^ 58"
  shows "unat (avail_factor r) = 64 * unat r div 65"
proof -
  have "64 * unat r < 64 * 2 ^ 58"
    using assms by (simp only: mult_less_cancel1) simp
  then have "64 * unat r mod 2 ^ 64 = 64 * unat r"
    by simp
  then show ?thesis
    by (simp only: avail_factor_unat)
qed

lemma avail_factor_le: "unat (avail_factor r) \<le> 64 * unat r div 65"
  unfolding avail_factor_unat by (rule div_le_mono) (rule mod_less_eq_dividend)

lemma avail_factor_large:
  assumes "2 ^ 58 \<le> unat r"
  shows "unat (avail_factor r) < 64 * unat r div 65"
proof -
  let ?y = "64 * unat r" and ?m = "2 ^ 64 :: nat"
  have ge: "?m \<le> ?y"
    using assms by simp
  then have "?y mod ?m = (?y - ?m) mod ?m"
    by (rule le_mod_geq)
  also have "\<dots> \<le> ?y - ?m"
    by (rule mod_less_eq_dividend)
  finally have "?y mod ?m + 65 \<le> ?y"
    using ge by simp
  then have "(?y mod ?m + 65) div 65 \<le> ?y div 65"
    by (rule div_le_mono)
  then show ?thesis
    unfolding avail_factor_unat by simp
qed

lemma headroom_nat: "n - 64 * n div 65 = (n + 64) div 65" for n :: nat
proof -
  define q where "q = (n + 64) div 65"
  have "65 * q + (n + 64) mod 65 = n + 64"
    unfolding q_def by (rule mult_div_mod_eq)
  moreover have "(n + 64) mod 65 < 65"
    by simp
  ultimately have lo: "n \<le> 65 * q" and hi: "65 * q \<le> n + 64"
    by linarith+
  from hi have qn: "q \<le> n"
    by linarith
  have "64 * n div 65 = n - q"
  proof (rule div_nat_eqI)
    show "65 * (n - q) \<le> 64 * n"
      using lo qn by (simp add: diff_mult_distrib2)
    show "64 * n < 65 * Suc (n - q)"
      using hi qn by (simp add: diff_mult_distrib2)
  qed
  with qn show ?thesis
    unfolding q_def by simp
qed

subsection \<open>Disk reservations\<close>

lemma sum_list_update_word:
  fixes xs :: "u64 list"
  assumes "i < length xs"
  shows "sum_list (xs[i := v]) = sum_list xs - xs ! i + v"
  using assms
proof (induction xs arbitrary: i)
  case Nil
  then show ?case by simp
next
  case (Cons x xs)
  then show ?case by (cases i) simp_all
qed

lemma this_cpu_add_total:
  "cpu < length pcp \<Longrightarrow> sum_list (this_cpu_add cpu pcp val) = sum_list pcp + val"
  by (simp add: this_cpu_add_def sum_list_update_word)

lemma this_cpu_sub_total:
  "cpu < length pcp \<Longrightarrow> sum_list (this_cpu_sub cpu pcp val) = sum_list pcp - val"
  by (simp add: this_cpu_sub_def sum_list_update_word)

lemma this_cpu_sub_add_same:
  "this_cpu_sub cpu (this_cpu_add cpu pcp val) val = pcp"
proof (cases "cpu < length pcp")
  case True
  then show ?thesis by (simp add: this_cpu_sub_def this_cpu_add_def)
next
  case False
  then show ?thesis by (simp add: this_cpu_sub_def this_cpu_add_def list_update_beyond)
qed

lemma length_this_cpu_add: "length (this_cpu_add cpu pcp val) = length pcp"
  by (simp add: this_cpu_add_def)

lemma get_success:
  assumes "bch2_disk_reservation_get admit cpu c res s r flags = (Inr (), c', res')"
  shows "online_reserved c' = this_cpu_add cpu (online_reserved c) (s * ucast r)"
    and "sectors res' = s * ucast r"
    and "nr_replicas res' = r"
  using assms
  by (auto simp: bch2_disk_reservation_get_def bch2_disk_reservation_add_def
      bch2_disk_reservation_init_def Let_def split: if_splits)

text \<open>
  Claim C2. A successful \<^verbatim>\<open>bch2_disk_reservation_get\<close> of \<open>s\<close> sectors in \<open>r\<close> replicas
  records \<open>need = s * r\<close> in the token and adds it to the online-reserved counter; the
  \<^verbatim>\<open>bch2_disk_reservation_put\<close> that follows leaves the counter at its original value.
  The counter is the sum over the CPUs, and the release may run on another CPU than the
  acquisition; when both run on the same CPU every per-CPU slot is back at its original
  value as well.
\<close>

theorem disk_reservation_get_put_roundtrip:
  assumes "bch2_disk_reservation_get admit cpu c res s r flags = (Inr (), c', res')"
    and "bch2_disk_reservation_put cpu' c' res' = (c'', res'')"
    and "cpu < length (online_reserved c)" and "cpu' < length (online_reserved c)"
  shows "sectors res' = s * ucast r
         \<and> online_reserved_total c' = online_reserved_total c + s * ucast r
         \<and> online_reserved_total c'' = online_reserved_total c
         \<and> (cpu' = cpu \<longrightarrow> online_reserved c'' = online_reserved c)"
proof -
  note g = get_success [OF assms(1)]
  have c'': "online_reserved c'' = this_cpu_sub cpu' (online_reserved c') (sectors res')"
    using assms(2) by (auto simp: bch2_disk_reservation_put_def)
  have t1: "online_reserved_total c' = online_reserved_total c + s * ucast r"
    using assms(3) by (simp add: online_reserved_total_def g(1) this_cpu_add_total)
  have "cpu' < length (online_reserved c')"
    using assms(4) by (simp add: g(1) length_this_cpu_add)
  then have t2: "online_reserved_total c'' = online_reserved_total c' - s * ucast r"
    by (simp add: online_reserved_total_def c'' g(2) this_cpu_sub_total)
  have same: "online_reserved c'' = online_reserved c" if "cpu' = cpu"
    by (simp add: c'' g that this_cpu_sub_add_same)
  from g(2) t1 t2 same show ?thesis
    by simp
qed

text \<open>
  On the filesystem with the per-CPU slots 5 and 7: 100 sectors in 2 replicas are
  acquired on CPU 0 and released on CPU 1. The total is 12 before and after.
\<close>

theorem disk_reservation_get_put_roundtrip_witness:
  "bch2_disk_reservation_get admit1000 0 fs2 \<lparr>sectors = 9, nr_replicas = 9\<rparr> 100 2 0
     = (Inr (), \<lparr>online_reserved = [205, 7]\<rparr>, \<lparr>sectors = 200, nr_replicas = 2\<rparr>)
   \<and> online_reserved_total \<lparr>online_reserved = [205, 7]\<rparr> = 212
   \<and> online_reserved_total
         (fst (bch2_disk_reservation_put 1 \<lparr>online_reserved = [205, 7]\<rparr>
                 \<lparr>sectors = 200, nr_replicas = 2\<rparr>)) = 12
   \<and> online_reserved_total fs2 = 12"
proof -
  have g: "bch2_disk_reservation_get admit1000 0 fs2 \<lparr>sectors = 9, nr_replicas = 9\<rparr> 100 2 0
     = (Inr (), \<lparr>online_reserved = [205, 7]\<rparr>, \<lparr>sectors = 200, nr_replicas = 2\<rparr>)"
    by (simp add: bch2_disk_reservation_get_def bch2_disk_reservation_add_def
        bch2_disk_reservation_init_def this_cpu_add_def admit1000_def fs2_def)
  obtain c2 res2 where p: "bch2_disk_reservation_put 1 \<lparr>online_reserved = [205, 7]\<rparr>
                 \<lparr>sectors = 200, nr_replicas = 2\<rparr> = (c2, res2)"
    by (cases "bch2_disk_reservation_put 1 \<lparr>online_reserved = [205, 7]\<rparr>
                 \<lparr>sectors = 200, nr_replicas = 2\<rparr>")
  have l0: "0 < length (online_reserved fs2)" and l1: "1 < length (online_reserved fs2)"
    by (simp_all add: fs2_def)
  have t: "online_reserved_total fs2 = 12"
    by (simp add: online_reserved_total_def fs2_def)
  from disk_reservation_get_put_roundtrip [OF g p l0 l1] g t show ?thesis
    unfolding p by simp
qed

lemma get_nofail_succeeds:
  "flags AND BCH_DISK_RESERVATION_NOFAIL \<noteq> 0 \<Longrightarrow>
     fst (bch2_disk_reservation_get admit cpu c res s r flags) = Inr ()"
  by (simp add: bch2_disk_reservation_get_def bch2_disk_reservation_add_def Let_def)

text \<open>
  Claim C10. \<^verbatim>\<open>bch2_disk_reservation_put\<close> subtracts the token's sectors from the
  online-reserved counter and leaves the token with zero sectors. Releasing the same
  token again, on any CPU, subtracts zero: the second release changes neither the
  counter nor the token.
\<close>

theorem disk_reservation_put_twice:
  "let p1 = bch2_disk_reservation_put cpu c res;
       p2 = bch2_disk_reservation_put cpu' (fst p1) (snd p1)
   in sectors (snd p1) = 0
      \<and> (cpu < length (online_reserved c) \<longrightarrow>
           online_reserved_total (fst p1) = online_reserved_total c - sectors res)
      \<and> online_reserved (fst p2) = online_reserved (fst p1)
      \<and> p2 = p1"
  by (simp add: bch2_disk_reservation_put_def this_cpu_sub_def online_reserved_total_def
      sum_list_update_word)

text \<open>
  A token of 3 sectors released on CPU 0 takes the total from 12 to 9; released again on
  CPU 1 it leaves the slots at 2 and 7.
\<close>

theorem disk_reservation_put_twice_witness:
  "online_reserved_total (fst (bch2_disk_reservation_put 0 fs2 \<lparr>sectors = 3, nr_replicas = 1\<rparr>)) = 9
   \<and> bch2_disk_reservation_put 1
        (fst (bch2_disk_reservation_put 0 fs2 \<lparr>sectors = 3, nr_replicas = 1\<rparr>))
        (snd (bch2_disk_reservation_put 0 fs2 \<lparr>sectors = 3, nr_replicas = 1\<rparr>))
       = (\<lparr>online_reserved = [2, 7]\<rparr>, \<lparr>sectors = 0, nr_replicas = 1\<rparr>)"
proof -
  have l: "0 < length (online_reserved fs2)"
    by (simp add: fs2_def)
  have t: "online_reserved_total fs2 - sectors \<lparr>sectors = 3, nr_replicas = 1\<rparr> = 9"
    by (simp add: online_reserved_total_def fs2_def)
  have p1: "bch2_disk_reservation_put 0 fs2 \<lparr>sectors = 3, nr_replicas = 1\<rparr>
              = (\<lparr>online_reserved = [2, 7]\<rparr>, \<lparr>sectors = 0, nr_replicas = 1\<rparr>)"
    by (simp add: bch2_disk_reservation_put_def this_cpu_sub_def fs2_def)
  from disk_reservation_put_twice [of 0 fs2 "\<lparr>sectors = 3, nr_replicas = 1\<rparr>" 1] l
  have "online_reserved_total (fst (bch2_disk_reservation_put 0 fs2 \<lparr>sectors = 3, nr_replicas = 1\<rparr>))
          = online_reserved_total fs2 - sectors \<lparr>sectors = 3, nr_replicas = 1\<rparr>"
    and "bch2_disk_reservation_put 1
        (fst (bch2_disk_reservation_put 0 fs2 \<lparr>sectors = 3, nr_replicas = 1\<rparr>))
        (snd (bch2_disk_reservation_put 0 fs2 \<lparr>sectors = 3, nr_replicas = 1\<rparr>))
       = bch2_disk_reservation_put 0 fs2 \<lparr>sectors = 3, nr_replicas = 1\<rparr>"
    by (simp_all add: Let_def)
  then show ?thesis
    by (simp only: t p1)
qed

subsection \<open>Admission and the reserved headroom\<close>

lemma add_without_override:
  assumes "flags AND BCH_DISK_RESERVATION_NOFAIL = 0"
  shows "bch2_disk_reservation_add admit cpu c res need flags =
           (if admit c need
            then (Inr (),
                  c\<lparr>online_reserved := this_cpu_add cpu (online_reserved c) need\<rparr>,
                  res\<lparr>sectors := sectors res + need\<rparr>)
            else (Inl InsufficientSpace, c, res))"
  using assms by (simp add: bch2_disk_reservation_add_def)

lemma admitted_total:
  assumes "admit_headroom r c need" and "cpu < length (online_reserved c)"
  shows "unat (online_reserved_total
                 (c\<lparr>online_reserved := this_cpu_add cpu (online_reserved c) need\<rparr>))
           = unat (online_reserved_total c) + unat need"
    and "unat (online_reserved_total
                 (c\<lparr>online_reserved := this_cpu_add cpu (online_reserved c) need\<rparr>))
           \<le> unat (avail_factor r)"
proof -
  from assms(1) have le: "unat (online_reserved_total c) + unat need \<le> unat (avail_factor r)"
    by (simp add: admit_headroom_def)
  have "unat (avail_factor r) < 2 ^ LENGTH(64)"
    by (rule unsigned_less)
  with le have "unat (online_reserved_total c) + unat need < 2 ^ LENGTH(64)"
    by linarith
  then have "unat (online_reserved_total c + need) = unat (online_reserved_total c) + unat need"
    by (simp only: unat_add_lem)
  moreover have "online_reserved_total
                 (c\<lparr>online_reserved := this_cpu_add cpu (online_reserved c) need\<rparr>)
           = online_reserved_total c + need"
    using assms(2) by (simp add: online_reserved_total_def this_cpu_add_total)
  ultimately show "unat (online_reserved_total
                 (c\<lparr>online_reserved := this_cpu_add cpu (online_reserved c) need\<rparr>))
           = unat (online_reserved_total c) + unat need"
    by simp
  with le show "unat (online_reserved_total
                 (c\<lparr>online_reserved := this_cpu_add cpu (online_reserved c) need\<rparr>))
           \<le> unat (avail_factor r)"
    by simp
qed

text \<open>
  Claim C6, as amended. For every capacity \<open>r\<close> below \<open>2^58\<close>, \<^verbatim>\<open>avail_factor r\<close> equals
  \<open>\<lfloor>64 r / 65\<rfloor>\<close> and the part withheld is \<open>\<lceil>r / 65\<rceil>\<close>; from \<open>2^58\<close> on the shift by
  6 bits wraps and the value is strictly below \<open>\<lfloor>64 r / 65\<rfloor>\<close>. Reservation admission
  hands out at most 64/65 of the capacity: an acquisition without the override flag
  succeeds only if the sectors reserved afterwards are within \<^verbatim>\<open>avail_factor r\<close>, hence
  within \<open>\<lfloor>64 r / 65\<rfloor>\<close>, and is refused with \<open>InsufficientSpace\<close>, the counter unchanged,
  when it would reach into the headroom. The headroom is granted under the override flag
  only: with the flag every acquisition succeeds.
\<close>

theorem avail_factor_floor:
  "(unat (avail_factor r) = 64 * unat r div 65) = (r < 2 ^ 58)
   \<and> (r < 2 ^ 58 \<longrightarrow> unat r - unat (avail_factor r) = (unat r + 64) div 65)
   \<and> unat (avail_factor r) \<le> 64 * unat r div 65
   \<and> (flags AND BCH_DISK_RESERVATION_NOFAIL = 0 \<and> cpu < length (online_reserved c)
        \<and> bch2_disk_reservation_get (admit_headroom r) cpu c res s n flags = (Inr (), c', res')
       \<longrightarrow> unat (online_reserved_total c') = unat (online_reserved_total c) + unat (s * ucast n)
           \<and> unat (online_reserved_total c') \<le> unat (avail_factor r)
           \<and> unat (online_reserved_total c') \<le> 64 * unat r div 65)
   \<and> (flags AND BCH_DISK_RESERVATION_NOFAIL = 0 \<and> \<not> admit_headroom r c (s * ucast n)
       \<longrightarrow> bch2_disk_reservation_get (admit_headroom r) cpu c res s n flags
             = (Inl InsufficientSpace, c, bch2_disk_reservation_init c n))
   \<and> (flags AND BCH_DISK_RESERVATION_NOFAIL \<noteq> 0
       \<longrightarrow> fst (bch2_disk_reservation_get (admit_headroom r) cpu c res s n flags) = Inr ())"
proof (intro conjI impI)
  have lt: "(r < 2 ^ 58) = (unat r < 2 ^ 58)"
    by (simp add: word_less_nat_alt)
  show "(unat (avail_factor r) = 64 * unat r div 65) = (r < 2 ^ 58)"
    using avail_factor_small [of r] avail_factor_large [of r]
    unfolding lt by (cases "unat r < 2 ^ 58") simp_all
  show "unat r - unat (avail_factor r) = (unat r + 64) div 65" if "r < 2 ^ 58"
    using that unfolding lt by (simp add: avail_factor_small headroom_nat)
  show le: "unat (avail_factor r) \<le> 64 * unat r div 65"
    by (rule avail_factor_le)
  show "fst (bch2_disk_reservation_get (admit_headroom r) cpu c res s n flags) = Inr ()"
    if "flags AND BCH_DISK_RESERVATION_NOFAIL \<noteq> 0"
    using that by (rule get_nofail_succeeds)
  show "bch2_disk_reservation_get (admit_headroom r) cpu c res s n flags
          = (Inl InsufficientSpace, c, bch2_disk_reservation_init c n)"
    if "flags AND BCH_DISK_RESERVATION_NOFAIL = 0 \<and> \<not> admit_headroom r c (s * ucast n)"
    using that by (simp add: bch2_disk_reservation_get_def add_without_override)
  assume ok: "flags AND BCH_DISK_RESERVATION_NOFAIL = 0 \<and> cpu < length (online_reserved c)
        \<and> bch2_disk_reservation_get (admit_headroom r) cpu c res s n flags = (Inr (), c', res')"
  then have adm: "admit_headroom r c (s * ucast n)"
    and c': "c' = c\<lparr>online_reserved := this_cpu_add cpu (online_reserved c) (s * ucast n)\<rparr>"
    by (auto simp: bch2_disk_reservation_get_def add_without_override split: if_splits)
  from ok have cpu: "cpu < length (online_reserved c)"
    by simp
  show "unat (online_reserved_total c') = unat (online_reserved_total c) + unat (s * ucast n)"
    unfolding c' by (rule admitted_total(1) [OF adm cpu])
  show t: "unat (online_reserved_total c') \<le> unat (avail_factor r)"
    unfolding c' by (rule admitted_total(2) [OF adm cpu])
  from t le show "unat (online_reserved_total c') \<le> 64 * unat r div 65"
    by (rule order_trans)
qed

text \<open>
  Of a capacity of 6500 sectors, 6400 may be handed out and 100 are withheld. With 12
  sectors reserved, 6388 more are granted without the override flag, 6389 are refused
  without it and granted with it.
\<close>

theorem avail_factor_floor_witness:
  "(6500 :: u64) < 2 ^ 58 \<and> unat (avail_factor 6500) = 6400
   \<and> unat (6500 :: u64) - unat (avail_factor 6500) = 100
   \<and> fst (bch2_disk_reservation_get (admit_headroom 6500) 0 fs2 \<lparr>sectors = 9, nr_replicas = 9\<rparr>
             6388 1 0) = Inr ()
   \<and> bch2_disk_reservation_get (admit_headroom 6500) 0 fs2 \<lparr>sectors = 9, nr_replicas = 9\<rparr>
             6389 1 0 = (Inl InsufficientSpace, fs2, \<lparr>sectors = 0, nr_replicas = 1\<rparr>)
   \<and> fst (bch2_disk_reservation_get (admit_headroom 6500) 0 fs2 \<lparr>sectors = 9, nr_replicas = 9\<rparr>
             6389 1 1) = Inr ()"
proof -
  have h: "(6500 :: u64) < 2 ^ 58"
    by simp
  have a: "unat (avail_factor 6500) = 6400"
    and d: "unat (6500 :: u64) - unat (avail_factor 6500) = 100"
    using avail_factor_floor [of 6500] h by simp_all
  have t: "unat (online_reserved_total fs2) = 12"
    by (simp add: online_reserved_total_def fs2_def)
  have f0: "(0 :: u32) AND BCH_DISK_RESERVATION_NOFAIL = 0"
    and f1: "(1 :: u32) AND BCH_DISK_RESERVATION_NOFAIL \<noteq> 0"
    by (simp_all add: BCH_DISK_RESERVATION_NOFAIL_def)
  have yes: "admit_headroom 6500 fs2 (6388 * ucast (1 :: u32))"
    and no: "\<not> admit_headroom 6500 fs2 (6389 * ucast (1 :: u32))"
    by (simp_all add: admit_headroom_def a t)
  have g1: "fst (bch2_disk_reservation_get (admit_headroom 6500) 0 fs2
                   \<lparr>sectors = 9, nr_replicas = 9\<rparr> 6388 1 0) = Inr ()"
    using yes by (simp add: bch2_disk_reservation_get_def add_without_override [OF f0] Let_def)
  have g2: "bch2_disk_reservation_get (admit_headroom 6500) 0 fs2
                   \<lparr>sectors = 9, nr_replicas = 9\<rparr> 6389 1 0
              = (Inl InsufficientSpace, fs2, \<lparr>sectors = 0, nr_replicas = 1\<rparr>)"
    using avail_factor_floor [of 6500 0 0 fs2 "\<lparr>sectors = 9, nr_replicas = 9\<rparr>" 6389 1] f0 no
    by (simp add: bch2_disk_reservation_init_def)
  have g3: "fst (bch2_disk_reservation_get (admit_headroom 6500) 0 fs2
                   \<lparr>sectors = 9, nr_replicas = 9\<rparr> 6389 1 1) = Inr ()"
    using avail_factor_floor [of 6500 1] f1 by simp
  from h a d g1 g2 g3 show ?thesis
    by simp
qed

text \<open>
  At the capacity \<open>2^58\<close> the shift pushes the only set bit out of the word, and the
  function returns 0 instead of \<open>\<lfloor>64 \<sqdot> 2^58 / 65\<rfloor>\<close>.
\<close>

theorem avail_factor_counterexample:
  "unat (avail_factor (2 ^ 58)) \<noteq> 64 * unat (2 ^ 58 :: u64) div 65"
  by (simp add: avail_factor_def div_u64_def RESERVE_FACTOR_def)

subsection \<open>Concurrent compare-and-swap loops serialise\<close>

lemma serialize_snoc: "serialize exprs (hist @ [i]) v0 = (exprs ! i) (serialize exprs hist v0)"
  by (simp add: serialize_def)

lemma done_set_update_not_done:
  assumes "i < length cs" and "\<not> is_Done (cs ! i)" and "\<not> is_Done c"
  shows "{j. j < length (cs[i := c]) \<and> is_Done (cs[i := c] ! j)}
           = {j. j < length cs \<and> is_Done (cs ! j)}"
  using assms by (auto simp: nth_list_update)

lemma done_set_update_done:
  assumes "i < length cs" and "is_Done c"
  shows "{j. j < length (cs[i := c]) \<and> is_Done (cs[i := c] ! j)}
           = insert i {j. j < length cs \<and> is_Done (cs ! j)}"
  using assms by (auto simp: nth_list_update)

lemma cmpxchg_step_inv:
  assumes inv: "cmpxchg_inv exprs v0 hist (v, cs)"
    and i: "i < length cs"
    and step: "bucket_cmpxchg_step (exprs ! i) v (cs ! i) = (v', c')"
  shows "\<exists>hist'. cmpxchg_inv exprs v0 hist' (v', cs[i := c'])"
proof -
  from inv have d: "distinct hist"
    and s: "set hist = {j. j < length cs \<and> is_Done (cs ! j)}"
    and v: "v = serialize exprs hist v0"
    by (simp_all add: cmpxchg_inv_def)
  from step have v': "v' = fst (bucket_cmpxchg_step (exprs ! i) v (cs ! i))"
    and c': "c' = snd (bucket_cmpxchg_step (exprs ! i) v (cs ! i))"
    by simp_all
  have retry: "cmpxchg_inv exprs v0 hist (v, cs[i := Loaded v])" if "\<not> is_Done (cs ! i)"
  proof -
    have "set hist = {j. j < length (cs[i := Loaded v]) \<and> is_Done (cs[i := Loaded v] ! j)}"
      using i that by (simp only: s done_set_update_not_done is_Done.simps not_False_eq_True)
    with d v show ?thesis
      by (simp add: cmpxchg_inv_def)
  qed
  show ?thesis
  proof (cases "cs ! i")
    case Idle
    then have "(v', c') = (v, Loaded v)"
      by (simp add: v' c')
    with retry Idle show ?thesis
      by auto
  next
    case (Loaded old)
    show ?thesis
    proof (cases "v = old")
      case True
      with Loaded have r: "(v', c') = ((exprs ! i) v, Done old)"
        by (simp add: v' c')
      from s i Loaded have ni: "i \<notin> set hist"
        by simp
      have "{j. j < length (cs[i := Done old]) \<and> is_Done (cs[i := Done old] ! j)} = insert i (set hist)"
        using i by (simp only: s done_set_update_done is_Done.simps)
      then have "set (hist @ [i]) = {j. j < length (cs[i := Done old]) \<and> is_Done (cs[i := Done old] ! j)}"
        by simp
      with d ni v have "cmpxchg_inv exprs v0 (hist @ [i]) ((exprs ! i) v, cs[i := Done old])"
        by (simp add: cmpxchg_inv_def serialize_snoc)
      with r show ?thesis
        by auto
    next
      case False
      with Loaded have "(v', c') = (v, Loaded v)"
        by (simp add: v' c')
      with retry Loaded show ?thesis
        by auto
    qed
  next
    case (Done old)
    then have r: "(v', c') = (v, Done old)"
      by (simp add: v' c')
    from Done have "cs[i := Done old] = cs"
      by (metis list_update_id)
    with inv r show ?thesis
      by auto
  qed
qed

lemma cmpxchg_run_inv:
  assumes "cmpxchg_inv exprs v0 hist (v, cs)"
    and "bucket_cmpxchg_run exprs sched (v, cs) = (v', cs')"
  shows "length cs' = length cs \<and> (\<exists>hist'. cmpxchg_inv exprs v0 hist' (v', cs'))"
  using assms
proof (induction sched arbitrary: v cs hist)
  case Nil
  then show ?case by auto
next
  case (Cons i sched)
  show ?case
  proof (cases "i < length cs")
    case True
    obtain v1 c1 where step: "bucket_cmpxchg_step (exprs ! i) v (cs ! i) = (v1, c1)"
      by (cases "bucket_cmpxchg_step (exprs ! i) v (cs ! i)")
    from cmpxchg_step_inv [OF Cons.prems(1) True step]
    obtain hist1 where inv1: "cmpxchg_inv exprs v0 hist1 (v1, cs[i := c1])" ..
    from Cons.prems(2) True step
    have "bucket_cmpxchg_run exprs sched (v1, cs[i := c1]) = (v', cs')"
      by simp
    from Cons.IH [OF inv1 this] show ?thesis
      by simp
  next
    case False
    with Cons.prems(2) have "bucket_cmpxchg_run exprs sched (v, cs) = (v', cs')"
      by simp
    from Cons.IH [OF Cons.prems(1) this] show ?thesis .
  qed
qed

lemma cmpxchg_inv_initial: "cmpxchg_inv exprs v0 [] (v0, replicate n Idle)"
  by (simp add: cmpxchg_inv_def serialize_def)

text \<open>
  A caller that is not interfered with reads the word, writes the word its body makes of
  it, and yields the word read.
\<close>

lemma bucket_cmpxchg_uncontended:
  "bucket_cmpxchg_run [expr] [0, 0] (v, [Idle]) = (expr v, [Done v])"
  by simp

text \<open>
  Claim C9. Let \<open>n\<close> callers run \<^verbatim>\<open>bucket_cmpxchg\<close> on one bucket concurrently, under
  any schedule of their atomic steps. Once all of them have left the loop, the mark word
  is the result of applying all \<open>n\<close> bodies, each exactly once, one after the other in
  some order, to the initial word: no update is lost. A compare-and-swap that fails
  (the word \<open>w\<close> found differs from the value \<open>old\<close> the body was run on) leaves the
  word alone and hands the caller the word found, and the next attempt runs the body on
  that word.
\<close>

theorem bucket_cmpxchg_serializable:
  assumes run: "bucket_cmpxchg_run exprs sched (v0, replicate n Idle) = (v, cs)"
    and fin: "\<forall>c \<in> set cs. is_Done c"
  shows "(\<exists>order. distinct order \<and> set order = {..<n} \<and> v = serialize exprs order v0)
         \<and> (w \<noteq> old \<longrightarrow>
               bucket_cmpxchg_step expr w (Loaded old) = (w, Loaded w)
               \<and> bucket_cmpxchg_step expr w (Loaded w) = (expr w, Done w))"
proof -
  from cmpxchg_run_inv [OF cmpxchg_inv_initial run]
  obtain hist where len: "length cs = n" and inv: "cmpxchg_inv exprs v0 hist (v, cs)"
    by auto
  from fin len have "{i. i < length cs \<and> is_Done (cs ! i)} = {..<n}"
    by auto
  with inv have "distinct hist \<and> set hist = {..<n} \<and> v = serialize exprs hist v0"
    by (simp add: cmpxchg_inv_def)
  then show ?thesis
    by auto
qed

text \<open>
  Both callers read the word 10; the first writes 11; the second fails to exchange 10
  for 12, retries on 11 and writes 13. Neither addition is lost.
\<close>

theorem bucket_cmpxchg_serializable_witness:
  "bucket_cmpxchg_run two_exprs [0, 1, 0, 1, 1] (10, replicate 2 Idle) = (13, [Done 10, Done 11])
   \<and> (\<exists>order. distinct order \<and> set order = {..<2} \<and> 13 = serialize two_exprs order 10)"
proof -
  have run: "bucket_cmpxchg_run two_exprs [0, 1, 0, 1, 1] (10, replicate 2 Idle)
               = (13, [Done 10, Done 11])"
    by (simp add: two_exprs_def numeral_2_eq_2)
  have fin: "\<forall>c \<in> set [Done 10, Done 11]. is_Done c"
    by simp
  from bucket_cmpxchg_serializable [OF run fin] run show ?thesis
    by blast
qed

end
